theory Spec2Isabelle
  imports Main
begin

section \<open>Texts and the regular expressions of the parser\<close>

text \<open>
  The generator \<^verbatim>\<open>generate_art_jni_method_table.py\<close> scans the text of every file of
  ART's native directory with a handful of regular expressions. A text is a
  \<^typ>\<open>string\<close>: a \<^typ>\<open>char\<close> is a code point below 256 (the scanned C++ sources are
  ASCII), and text with other code points is outside the model. On these code points
  \<open>is_space\<close> and \<open>is_word\<close> are the classes \<^verbatim>\<open>\s\<close> and \<^verbatim>\<open>\w\<close> of a pattern compiled
  from a \<^verbatim>\<open>str\<close>: the whitespace of \<^verbatim>\<open>str.isspace\<close> (tab to carriage return, the four
  separators 28 to 31, space, U+0085 and U+00A0), and the alphanumerics of
  \<^verbatim>\<open>str.isalnum\<close> with the underscore (the ASCII digits and letters, and in Latin-1 the
  letters, the superscript digits and the fractions).

  Every regular expression of the program is a sequence of literal characters and of
  repetitions of one character class, some of them capturing: \<^verbatim>\<open>\s+\<close>, \<^verbatim>\<open>\s*\<close>,
  \<^verbatim>\<open>(\w+)\<close>, \<^verbatim>\<open>\w+\<close>, \<^verbatim>\<open>[^,]*\<close> and the lazy \<^verbatim>\<open>(.+?)\<close>. The matcher is the
  backtracking matcher of Python's \<^verbatim>\<open>re\<close>: a greedy repetition tries the longest run first,
  a lazy one the shortest, and each gives way until the rest of the pattern matches.
\<close>

datatype cls = Dot | Space | Word | NotComma

datatype quant = Greedy | Lazy

datatype item =
    Chr char
  | Many cls nat quant
  | Group cls nat quant

type_synonym pattern = "item list"

definition is_space :: "char \<Rightarrow> bool" where
  "is_space c \<longleftrightarrow> (let n = (of_char c :: nat) in
     (9 \<le> n \<and> n \<le> 13) \<or> (28 \<le> n \<and> n \<le> 32) \<or> n = 133 \<or> n = 160)"

definition is_word :: "char \<Rightarrow> bool" where
  "is_word c \<longleftrightarrow> (let n = (of_char c :: nat) in
     (48 \<le> n \<and> n \<le> 57) \<or> (65 \<le> n \<and> n \<le> 90) \<or> n = 95 \<or> (97 \<le> n \<and> n \<le> 122) \<or>
     n = 170 \<or> n = 178 \<or> n = 179 \<or> n = 181 \<or> n = 185 \<or> n = 186 \<or>
     (188 \<le> n \<and> n \<le> 190) \<or> (192 \<le> n \<and> n \<le> 214) \<or> (216 \<le> n \<and> n \<le> 246) \<or>
     (248 \<le> n \<and> n \<le> 255))"

fun in_cls :: "cls \<Rightarrow> char \<Rightarrow> bool" where
  "in_cls Dot c = (c \<noteq> CHR 0x0A)"
| "in_cls Space c = is_space c"
| "in_cls Word c = is_word c"
| "in_cls NotComma c = (c \<noteq> CHR '','')"

text \<open>
  \<open>greedy c n k acc s\<close> repeats class \<open>c\<close> at least \<open>n\<close> more times on \<open>s\<close>, \<open>acc\<close> being
  what the repetition has consumed so far; the continuation \<open>k\<close> is the rest of the
  pattern and receives the consumed run and the remaining text. The longest run is
  tried first. \<open>lazy\<close> tries the shortest run first.
\<close>

fun greedy :: "cls \<Rightarrow> nat \<Rightarrow> (string \<Rightarrow> string \<Rightarrow> 'r option) \<Rightarrow> string \<Rightarrow> string \<Rightarrow> 'r option" where
  "greedy c n k acc [] = (if n = 0 then k acc [] else None)"
| "greedy c n k acc (x # xs) =
     (if in_cls c x then
        (case greedy c (n - 1) k (acc @ [x]) xs of
           Some r \<Rightarrow> Some r
         | None \<Rightarrow> if n = 0 then k acc (x # xs) else None)
      else if n = 0 then k acc (x # xs) else None)"

fun lazy :: "cls \<Rightarrow> nat \<Rightarrow> (string \<Rightarrow> string \<Rightarrow> 'r option) \<Rightarrow> string \<Rightarrow> string \<Rightarrow> 'r option" where
  "lazy c n k acc [] = (if n = 0 then k acc [] else None)"
| "lazy c n k acc (x # xs) =
     (case (if n = 0 then k acc (x # xs) else None) of
        Some r \<Rightarrow> Some r
      | None \<Rightarrow> if in_cls c x then lazy c (n - 1) k (acc @ [x]) xs else None)"

definition repeat :: "quant \<Rightarrow> cls \<Rightarrow> nat \<Rightarrow> (string \<Rightarrow> string \<Rightarrow> 'r option) \<Rightarrow> string \<Rightarrow> 'r option" where
  "repeat q c n k s = (case q of Greedy \<Rightarrow> greedy c n k [] s | Lazy \<Rightarrow> lazy c n k [] s)"

text \<open>
  \<open>match_here p s\<close> matches the pattern at the very start of \<open>s\<close> and returns the captured
  groups, in the order of their opening, with the text that follows the match.
\<close>

fun match_here :: "pattern \<Rightarrow> string \<Rightarrow> (string list \<times> string) option" where
  "match_here [] s = Some ([], s)"
| "match_here (Chr c # p) s =
     (case s of [] \<Rightarrow> None | x # xs \<Rightarrow> if x = c then match_here p xs else None)"
| "match_here (Many c n q # p) s = repeat q c n (\<lambda>g rest. match_here p rest) s"
| "match_here (Group c n q # p) s =
     repeat q c n (\<lambda>g rest. map_option (\<lambda>(gs, r). (g # gs, r)) (match_here p rest)) s"

text \<open>
  A match object: \<^verbatim>\<open>m.start()\<close>, \<^verbatim>\<open>m.end()\<close> and the groups \<^verbatim>\<open>m.group(1)\<close>, ...
  A match of a pattern has one group for each capturing repetition of the pattern
  (\<open>finditer_groups\<close> below), and the program reads no other group.
\<close>

record match =
  m_start :: nat
  m_end :: nat
  m_groups :: "string list"

definition group :: "match \<Rightarrow> nat \<Rightarrow> string" where
  "group m i = m_groups m ! (i - 1)"

text \<open>\<^verbatim>\<open>pattern.search(text)\<close>: the match at the leftmost position that has one.\<close>

fun search_from :: "nat \<Rightarrow> pattern \<Rightarrow> string \<Rightarrow> match option" where
  "search_from pos p s =
     (case match_here p s of
        Some (gs, rest) \<Rightarrow>
          Some \<lparr>m_start = pos, m_end = pos + (length s - length rest), m_groups = gs\<rparr>
      | None \<Rightarrow> (case s of [] \<Rightarrow> None | x # xs \<Rightarrow> search_from (Suc pos) p xs))"

definition search :: "pattern \<Rightarrow> string \<Rightarrow> match option" where
  "search p s = search_from 0 p s"

text \<open>
  \<^verbatim>\<open>pattern.finditer(text)\<close>: the matches that do not overlap, from left to right, each
  search starting where the match before it ended; \<open>off\<close> is the offset of \<open>s\<close> in the
  whole text. A match of width zero that ends at the start of \<open>s\<close> would not advance:
  the scan stops after it. No pattern of this program matches the empty string
  (\<open>search_advances\<close> and \<open>patterns_width\<close> below), so that branch only makes the
  function total.
\<close>

definition shift :: "nat \<Rightarrow> match \<Rightarrow> match" where
  "shift off m = m\<lparr>m_start := off + m_start m, m_end := off + m_end m\<rparr>"

function finditer_from :: "nat \<Rightarrow> pattern \<Rightarrow> string \<Rightarrow> match list" where
  "finditer_from off p s =
     (case search p s of
        None \<Rightarrow> []
      | Some m \<Rightarrow>
          shift off m #
          (if 0 < m_end m then finditer_from (off + m_end m) p (drop (m_end m) s) else []))"
  by pat_completeness auto
termination
proof (relation "measure (\<lambda>(off, p, s). length s)")
  show "wf (measure (\<lambda>(off, p, s). length s))" by simp
next
  fix off :: nat and p :: pattern and s :: string and m :: match
  assume found: "search p s = Some m" and pos: "0 < m_end m"
  have bound: "search_from i p t = Some m \<Longrightarrow> m_end m \<le> i + length t" for i t
  proof (induction i p t rule: search_from.induct)
    case (1 i p t)
    show ?case
    proof (cases "match_here p t")
      case (Some r)
      with "1.prems" show ?thesis by (cases r) auto
    next
      case None
      show ?thesis
      proof (cases t)
        case Nil
        with None "1.prems" show ?thesis by simp
      next
        case (Cons x xs)
        with None "1.prems" have "search_from (Suc i) p xs = Some m" by simp
        from "1.IH" [OF None Cons this] Cons show ?thesis by simp
      qed
    qed
  qed
  from found have "m_end m \<le> length s"
    using bound [of 0 s] by (simp add: search_def)
  with pos
  show "((off + m_end m, p, drop (m_end m) s), (off, p, s)) \<in> measure (\<lambda>(off, p, s). length s)"
    by simp
qed

definition finditer :: "pattern \<Rightarrow> string \<Rightarrow> match list" where
  "finditer p s = finditer_from 0 p s"

section \<open>The parser\<close>

text \<open>
  The patterns that \<^verbatim>\<open>ArtJniMethodParser.__init__\<close> compiles. \<open>lit\<close> is a run of literal
  characters (in the source \<^verbatim>\<open>\(\<close>, \<^verbatim>\<open>\)\<close> and \<^verbatim>\<open>\"\<close> are the literal characters).
\<close>

definition lit :: "string \<Rightarrow> pattern" where
  "lit s = map Chr s"

definition class_name_pattern :: pattern where
  \<open>class_name_pattern = lit ''REGISTER_NATIVE_METHODS("'' @ [Group Dot 1 Lazy] @ lit ''")''\<close>

definition macro_names :: "string list" where
  "macro_names = [''NATIVE_METHOD'', ''FAST_NATIVE_METHOD'', ''CRITICAL_NATIVE_METHOD'']"

definition method_s :: pattern where
  "method_s = lit ''('' @ [Many Space 0 Greedy, Group Word 1 Greedy, Many Space 0 Greedy,
     Chr CHR '','', Many Space 0 Greedy, Group Word 1 Greedy]"

definition overload_s :: pattern where
  "overload_s = lit ''('' @ [Many Space 0 Greedy, Group Word 1 Greedy, Many Space 0 Greedy,
     Chr CHR '','', Many Space 0 Greedy, Group Word 1 Greedy, Many Space 0 Greedy,
     Chr CHR '','', Many NotComma 0 Greedy, Chr CHR '','', Many Space 0 Greedy,
     Group Word 1 Greedy]"

definition method_patterns :: "pattern list" where
  "method_patterns = concat (map (\<lambda>name.
     [Many Space 1 Greedy # lit name @ method_s,
      Many Space 1 Greedy # lit (name @ ''AUTOSIG'') @ method_s]) macro_names)"

definition overload_method_patterns :: "pattern list" where
  "overload_method_patterns =
     map (\<lambda>name. Many Space 1 Greedy # lit (''OVERLOADED_'' @ name) @ overload_s) macro_names"

definition static_function_pattern :: pattern where
  "static_function_pattern = lit ''static'' @ [Many Space 1 Greedy, Many Word 1 Greedy,
     Many Space 1 Greedy, Group Word 1 Greedy, Chr CHR ''('']"

text \<open>
  The faults of a run: a failed \<^verbatim>\<open>assert\<close> and a file that cannot be read as text
  (\<^verbatim>\<open>read_text\<close> raising). Either one is an uncaught exception.
\<close>

datatype error = AssertionError | ReadError

record ArtJniMethod =
  class_name :: string
  java_method_name :: string
  native_method_name :: string

text \<open>\<^verbatim>\<open>str.replace('/', '.')\<close> and \<^verbatim>\<open>str.rfind('.')\<close>, which is -1 when there is no dot.\<close>

definition replace_slash :: "string \<Rightarrow> string" where
  "replace_slash s = map (\<lambda>c. if c = CHR ''/'' then CHR ''.'' else c) s"

fun rfind_from :: "int \<Rightarrow> int \<Rightarrow> char \<Rightarrow> string \<Rightarrow> int" where
  "rfind_from i best c [] = best"
| "rfind_from i best c (x # xs) = rfind_from (i + 1) (if x = c then i else best) c xs"

definition rfind :: "char \<Rightarrow> string \<Rightarrow> int" where
  "rfind c s = rfind_from 0 (- 1) c s"

definition get_class_name :: "string \<Rightarrow> error + string option" where
  "get_class_name text =
     (case search class_name_pattern text of
        None \<Rightarrow> Inr None
      | Some m \<Rightarrow>
          if search class_name_pattern (drop (m_end m) text) = None
          then Inr (Some (replace_slash (group m 1)))
          else Inl AssertionError)"

definition class_base_name :: "string \<Rightarrow> string" where
  "class_base_name cn = drop (nat (rfind CHR ''.'' cn + 1)) cn"

text \<open>
  The two loops of \<^verbatim>\<open>_get_methods\<close>. \<open>append_matches cn i methods ms\<close> is the inner loop
  over the matches of one pattern; the symbol's suffix is group \<open>i\<close> (the method name
  for the plain forms, the third argument for the overloaded ones).
\<close>

fun append_matches :: "string \<Rightarrow> nat \<Rightarrow> ArtJniMethod list \<Rightarrow> match list \<Rightarrow> error + ArtJniMethod list" where
  "append_matches cn i methods [] = Inr methods"
| "append_matches cn i methods (m # ms) =
     (if class_base_name cn = group m 1
      then append_matches cn i
             (methods @ [\<lparr>class_name = cn, java_method_name = group m 2,
                          native_method_name = class_base_name cn @ ''_'' @ group m i\<rparr>]) ms
      else Inl AssertionError)"

fun scan_patterns :: "string \<Rightarrow> string \<Rightarrow> nat \<Rightarrow> ArtJniMethod list \<Rightarrow> pattern list \<Rightarrow> error + ArtJniMethod list" where
  "scan_patterns text cn i methods [] = Inr methods"
| "scan_patterns text cn i methods (p # ps) =
     (case append_matches cn i methods (finditer p text) of
        Inl e \<Rightarrow> Inl e
      | Inr methods' \<Rightarrow> scan_patterns text cn i methods' ps)"

definition get_methods :: "string \<Rightarrow> string \<Rightarrow> error + ArtJniMethod list" where
  "get_methods text cn =
     (case scan_patterns text cn 2 [] method_patterns of
        Inl e \<Rightarrow> Inl e
      | Inr methods \<Rightarrow> scan_patterns text cn 3 methods overload_method_patterns)"

definition static_function_names :: "string \<Rightarrow> string set" where
  "static_function_names text = set (map (\<lambda>m. group m 1) (finditer static_function_pattern text))"

fun check_loop :: "string set \<Rightarrow> ArtJniMethod list \<Rightarrow> error + unit" where
  "check_loop names [] = Inr ()"
| "check_loop names (method # methods) =
     (if native_method_name method \<in> names then check_loop names methods
      else Inl AssertionError)"

definition check_methods :: "string \<Rightarrow> ArtJniMethod list \<Rightarrow> error + unit" where
  "check_methods text methods = check_loop (static_function_names text) methods"

text \<open>
  An entry of the scanned directory: a file with its text, or an entry that
  \<^verbatim>\<open>read_text\<close> cannot read (a subdirectory, a file that does not decode).
\<close>

datatype dir_entry = TextFile string | Unreadable

definition parse_text :: "string \<Rightarrow> error + ArtJniMethod list" where
  "parse_text text =
     (case get_class_name text of
        Inl e \<Rightarrow> Inl e
      | Inr cno \<Rightarrow>
          (case cno of
             None \<Rightarrow> Inr []
           | Some cn \<Rightarrow>
               if cn = [] then Inr []
               else (case get_methods text cn of
                       Inl e \<Rightarrow> Inl e
                     | Inr methods \<Rightarrow>
                         (case check_methods text methods of
                            Inl e \<Rightarrow> Inl e
                          | Inr u \<Rightarrow> Inr methods))))"

fun parse_methods :: "dir_entry \<Rightarrow> error + ArtJniMethod list" where
  "parse_methods Unreadable = Inl ReadError"
| "parse_methods (TextFile text) = parse_text text"

section \<open>Collecting, rendering and the driver\<close>

text \<open>The directory is the list of its entries in the order \<^verbatim>\<open>iterdir\<close> yields them.\<close>

fun collect_loop :: "ArtJniMethod list \<Rightarrow> dir_entry list \<Rightarrow> error + ArtJniMethod list" where
  "collect_loop methods [] = Inr methods"
| "collect_loop methods (f # fs) =
     (case parse_methods f of
        Inl e \<Rightarrow> Inl e
      | Inr ms \<Rightarrow> collect_loop (methods @ ms) fs)"

definition collect_art_jni_methods :: "dir_entry list \<Rightarrow> error + ArtJniMethod list" where
  "collect_art_jni_methods dir = collect_loop [] dir"

text \<open>\<^verbatim>\<open>sep.join(lines)\<close> and the format \<^verbatim>\<open>'ART_JNI_METHOD("%s", "%s")' % (a, b)\<close>.\<close>

fun join :: "string \<Rightarrow> string list \<Rightarrow> string" where
  "join sep [] = []"
| "join sep [x] = x"
| "join sep (x # y # ys) = x @ sep @ join sep (y # ys)"

definition format_method :: "string \<Rightarrow> string \<Rightarrow> string" where
  \<open>format_method a b = ''ART_JNI_METHOD("'' @ a @ ''", "'' @ b @ ''")''\<close>

definition header :: "string list" where
  "header = [''// This file is generated by generate_art_jni_method_table.py.'',
             ''// clang-format off'']"

fun append_lines :: "string list \<Rightarrow> ArtJniMethod list \<Rightarrow> string list" where
  "append_lines lines [] = lines"
| "append_lines lines (method # methods) =
     append_lines
       (lines @ [format_method (class_name method @ ''.'' @ java_method_name method)
                   (''art::'' @ native_method_name method)]) methods"

definition art_jni_methods_to_str :: "ArtJniMethod list \<Rightarrow> string" where
  "art_jni_methods_to_str methods = join [CHR 0x0A] (append_lines header methods)"

text \<open>
  The driver. The world it acts on is the stored output file (its text as
  \<^verbatim>\<open>read_text\<close> returns it, \<open>None\<close> when \<^verbatim>\<open>read_text\<close> raises: the file does not exist
  or does not decode) and what has been printed. \<open>check_only\<close> is the flag \<^verbatim>\<open>--check-only\<close> of the command line. \<open>main\<close>
  returns \<open>Inr b\<close> when the Python function returns \<open>b\<close> and \<open>Inl e\<close> when it raises;
  the interpreter then exits with 0, or with 1 on \<open>False\<close> and on an uncaught exception.
  Reading the stored file raises when it does not exist; writing it is taken to succeed.
\<close>

record world =
  output_file :: "string option"
  printed :: "string list"

definition main :: "bool \<Rightarrow> dir_entry list \<Rightarrow> world \<Rightarrow> (error + bool) \<times> world" where
  "main check_only dir w =
     (case collect_art_jni_methods dir of
        Inl e \<Rightarrow> (Inl e, w)
      | Inr methods \<Rightarrow>
          (let text = art_jni_methods_to_str methods in
           if check_only then
             (case output_file w of
                None \<Rightarrow> (Inl ReadError, w)
              | Some stored \<Rightarrow>
                  if text \<noteq> stored
                  then (Inr False, w\<lparr>printed := printed w @ [''ART native methods have changed'']\<rparr>)
                  else (Inr True, w))
           else (Inr True, w\<lparr>output_file := Some text\<rparr>)))"

definition exit_code :: "error + bool \<Rightarrow> int" where
  "exit_code r = (case r of Inr True \<Rightarrow> 0 | Inr False \<Rightarrow> 1 | Inl e \<Rightarrow> 1)"

definition run :: "bool \<Rightarrow> dir_entry list \<Rightarrow> world \<Rightarrow> int \<times> world" where
  "run check_only dir w = (case main check_only dir w of (r, w') \<Rightarrow> (exit_code r, w'))"

text \<open>
  The stored file on disk is a sequence of bytes. \<^verbatim>\<open>Path.read_text\<close> decodes them with
  the encoding of the locale and, reading in text mode, translates every \<^verbatim>\<open>\r\n\<close> and
  every other \<^verbatim>\<open>\r\<close> to \<^verbatim>\<open>\n\<close>. The decoder is a parameter; it gives \<open>None\<close> for bytes
  that do not decode, and \<^verbatim>\<open>read_text\<close> raises then. \<open>decode_ascii\<close> is the codec
  \<^verbatim>\<open>ascii\<close>; UTF-8 and the other encodings that extend ASCII agree with it on the
  files it decodes. \<open>on_disk decode stored pr\<close> is the world of a run that finds the
  bytes \<open>stored\<close> in the output file (\<open>None\<close>: no file) and has printed \<open>pr\<close>.
\<close>

type_synonym decoder = "string \<Rightarrow> string option"

fun universal_newlines :: "string \<Rightarrow> string" where
  "universal_newlines [] = []"
| "universal_newlines [c] = (if c = CHR 0x0D then [CHR 0x0A] else [c])"
| "universal_newlines (c # d # cs) =
     (if c = CHR 0x0D \<and> d = CHR 0x0A then CHR 0x0A # universal_newlines cs
      else (if c = CHR 0x0D then CHR 0x0A else c) # universal_newlines (d # cs))"

definition read_text :: "decoder \<Rightarrow> string \<Rightarrow> error + string" where
  "read_text decode bytes =
     (case decode bytes of None \<Rightarrow> Inl ReadError | Some t \<Rightarrow> Inr (universal_newlines t))"

definition decode_ascii :: decoder where
  "decode_ascii bytes =
     (if list_all (\<lambda>b. (of_char b :: nat) < 128) bytes then Some bytes else None)"

definition stored_text :: "decoder \<Rightarrow> string option \<Rightarrow> string option" where
  "stored_text decode stored =
     (case stored of
        None \<Rightarrow> None
      | Some bytes \<Rightarrow> (case read_text decode bytes of Inl e \<Rightarrow> None | Inr t \<Rightarrow> Some t))"

definition on_disk :: "decoder \<Rightarrow> string option \<Rightarrow> string list \<Rightarrow> world" where
  "on_disk decode stored pr = \<lparr>output_file = stored_text decode stored, printed = pr\<rparr>"

section \<open>Notions used in the statements\<close>

text \<open>
  The least number of characters a pattern consumes, the capturing repetitions of a
  pattern in order, and what a run matched by a repetition of class \<open>c\<close> with at least
  \<open>n\<close> characters looks like.
\<close>

fun min_width :: "pattern \<Rightarrow> nat" where
  "min_width [] = 0"
| "min_width (Chr c # p) = Suc (min_width p)"
| "min_width (Many c n q # p) = n + min_width p"
| "min_width (Group c n q # p) = n + min_width p"

fun group_items :: "pattern \<Rightarrow> (cls \<times> nat) list" where
  "group_items [] = []"
| "group_items (Chr c # p) = group_items p"
| "group_items (Many c n q # p) = group_items p"
| "group_items (Group c n q # p) = (c, n) # group_items p"

definition run_of :: "cls \<Rightarrow> nat \<Rightarrow> string \<Rightarrow> bool" where
  "run_of c n g \<longleftrightarrow> n \<le> length g \<and> (\<forall>x\<in>set g. in_cls c x)"

text \<open>
  The record that \<^verbatim>\<open>_get_methods\<close> builds from one match, and all the declarations that
  a list of patterns matches in a text: pattern by pattern, and in the order of the text
  for one pattern.
\<close>

definition method_of :: "string \<Rightarrow> nat \<Rightarrow> match \<Rightarrow> ArtJniMethod" where
  "method_of cn i m = \<lparr>class_name = cn, java_method_name = group m 2,
     native_method_name = class_base_name cn @ ''_'' @ group m i\<rparr>"

definition declarations :: "pattern list \<Rightarrow> string \<Rightarrow> match list" where
  "declarations ps text = concat (map (\<lambda>p. finditer p text) ps)"

text \<open>Small files on which the statements below are tried.\<close>

definition ex_complete :: string where
  \<open>ex_complete =
     ''REGISTER_NATIVE_METHODS("a/b/Foo");\<newline>'' @
     ''static void Foo_bar(JNIEnv* env) {}\<newline>'' @
     ''static JNINativeMethod gMethods[] = {\<newline>'' @
     ''  NATIVE_METHOD(Foo, bar, "()V"),\<newline>'' @
     ''};''\<close>

definition ex_crlf :: string where
  \<open>ex_crlf =
     ''// This file is generated by generate_art_jni_method_table.py.'' @ [CHR 0x0D, CHR 0x0A] @
     ''// clang-format off'' @ [CHR 0x0D, CHR 0x0A] @
     ''ART_JNI_METHOD("a.b.Foo.bar", "art::Foo_bar")''\<close>

definition ex_unregistered :: string where
  \<open>ex_unregistered =
     ''static void Foo_bar(JNIEnv* env) {}\<newline>'' @
     ''  NATIVE_METHOD(Foo, bar, "()V"),\<newline>'' @
     ''  NATIVE_METHOD(Foo, baz, "()V"),''\<close>

definition ex_twice :: string where
  \<open>ex_twice =
     ''REGISTER_NATIVE_METHODS("a/b/Foo");\<newline>'' @
     ''REGISTER_NATIVE_METHODS("a/b/Foo");''\<close>

definition ex_other_class :: string where
  \<open>ex_other_class =
     ''REGISTER_NATIVE_METHODS("a/b/Foo");\<newline>'' @
     ''static void Foo_bar(JNIEnv* env) {}\<newline>'' @
     ''  NATIVE_METHOD(Foo, bar, "()V"),\<newline>'' @
     ''  FAST_NATIVE_METHOD(Baz, bar, "()V"),''\<close>

definition ex_undefined :: string where
  \<open>ex_undefined =
     ''REGISTER_NATIVE_METHODS("a/b/Foo");\<newline>'' @
     ''static void Foo_bar(JNIEnv* env) {}\<newline>'' @
     ''  NATIVE_METHOD(Foo, bar, "()V"),\<newline>'' @
     ''  NATIVE_METHOD(Foo, baz, "()V"),''\<close>

definition ex_order :: string where
  \<open>ex_order =
     ''REGISTER_NATIVE_METHODS("a/Foo")\<newline>'' @
     ''static void Foo_x(\<newline>'' @
     ''static void Foo_y(\<newline>'' @
     ''static void Foo_z(\<newline>'' @
     '' FAST_NATIVE_METHOD(Foo, x)\<newline>'' @
     '' NATIVE_METHOD(Foo, y)\<newline>'' @
     '' NATIVE_METHOD(Foo, z)''\<close>

definition ex_overloaded :: string where
  \<open>ex_overloaded =
     ''REGISTER_NATIVE_METHODS("a/Bar")\<newline>'' @
     ''static void Bar_run(\<newline>'' @
     ''static void Bar_stopNow(\<newline>'' @
     '' NATIVE_METHOD(Bar, run, "()V"),\<newline>'' @
     '' OVERLOADED_FAST_NATIVE_METHOD(Bar, stop, "(I)V", stopNow),''\<close>

section \<open>The matcher\<close>

declare search_from.simps [simp del]
declare finditer_from.simps [simp del]


lemma greedy_SomeD:
  "greedy c n k acc s = Some r \<Longrightarrow>
   \<exists>g rest. s = g @ rest \<and> run_of c n g \<and> k (acc @ g) rest = Some r"
proof (induction s arbitrary: n acc)
  case Nil
  then show ?case by (auto simp: run_of_def split: if_splits)
next
  case (Cons x xs)
  show ?case
  proof (cases "in_cls c x \<and> greedy c (n - 1) k (acc @ [x]) xs \<noteq> None")
    case True
    with Cons.prems have "greedy c (n - 1) k (acc @ [x]) xs = Some r" by auto
    from Cons.IH [OF this] obtain g rest where
      "xs = g @ rest" "run_of c (n - 1) g" "k ((acc @ [x]) @ g) rest = Some r" by blast
    with True have "x # xs = (x # g) @ rest \<and> run_of c n (x # g) \<and> k (acc @ (x # g)) rest = Some r"
      by (auto simp: run_of_def)
    then show ?thesis by blast
  next
    case False
    with Cons.prems have "n = 0 \<and> k acc (x # xs) = Some r"
      by (auto split: if_splits option.splits)
    then have "x # xs = [] @ (x # xs) \<and> run_of c n [] \<and> k (acc @ []) (x # xs) = Some r"
      by (simp add: run_of_def)
    then show ?thesis by blast
  qed
qed

lemma lazy_SomeD:
  "lazy c n k acc s = Some r \<Longrightarrow>
   \<exists>g rest. s = g @ rest \<and> run_of c n g \<and> k (acc @ g) rest = Some r"
proof (induction s arbitrary: n acc)
  case Nil
  then show ?case by (auto simp: run_of_def split: if_splits)
next
  case (Cons x xs)
  show ?case
  proof (cases "n = 0 \<and> k acc (x # xs) \<noteq> None")
    case True
    with Cons.prems have "n = 0 \<and> k acc (x # xs) = Some r" by auto
    then have "x # xs = [] @ (x # xs) \<and> run_of c n [] \<and> k (acc @ []) (x # xs) = Some r"
      by (simp add: run_of_def)
    then show ?thesis by blast
  next
    case False
    with Cons.prems have inc: "in_cls c x" and "lazy c (n - 1) k (acc @ [x]) xs = Some r"
      by (auto split: if_splits option.splits)
    from Cons.IH [OF this(2)] obtain g rest where
      "xs = g @ rest" "run_of c (n - 1) g" "k ((acc @ [x]) @ g) rest = Some r" by blast
    with inc have "x # xs = (x # g) @ rest \<and> run_of c n (x # g) \<and> k (acc @ (x # g)) rest = Some r"
      by (auto simp: run_of_def)
    then show ?thesis by blast
  qed
qed

lemma repeat_SomeD:
  "repeat q c n k s = Some r \<Longrightarrow> \<exists>g rest. s = g @ rest \<and> run_of c n g \<and> k g rest = Some r"
  using greedy_SomeD [of c n k "[]" s r] lazy_SomeD [of c n k "[]" s r]
  by (cases q) (simp_all add: repeat_def)

lemma match_here_SomeD:
  "match_here p s = Some (gs, rest) \<Longrightarrow>
   (\<exists>pre. s = pre @ rest \<and> min_width p \<le> length pre) \<and>
   list_all2 (\<lambda>g (c, n). run_of c n g) gs (group_items p)"
proof (induction p arbitrary: s gs)
  case Nil
  then show ?case by simp
next
  case (Cons it p)
  show ?case
  proof (cases it)
    case (Chr c)
    with Cons.prems obtain xs where s: "s = c # xs" and "match_here p xs = Some (gs, rest)"
      by (auto split: list.splits if_splits)
    from Cons.IH [OF this(2)] obtain pre where "xs = pre @ rest" "min_width p \<le> length pre"
      and g: "list_all2 (\<lambda>g (c, n). run_of c n g) gs (group_items p)" by blast
    with s Chr have "s = (c # pre) @ rest \<and> min_width (it # p) \<le> length (c # pre)" by simp
    with g Chr show ?thesis by auto
  next
    case (Many c n q)
    with Cons.prems have "repeat q c n (\<lambda>g rest. match_here p rest) s = Some (gs, rest)" by simp
    from repeat_SomeD [OF this] obtain g r where s: "s = g @ r" and run: "run_of c n g"
      and "match_here p r = Some (gs, rest)" by blast
    from Cons.IH [OF this(3)] obtain pre where "r = pre @ rest" "min_width p \<le> length pre"
      and g: "list_all2 (\<lambda>g (c, n). run_of c n g) gs (group_items p)" by blast
    with s run Many have "s = (g @ pre) @ rest \<and> min_width (it # p) \<le> length (g @ pre)"
      by (simp add: run_of_def)
    with g Many show ?thesis by auto
  next
    case (Group c n q)
    with Cons.prems have
      "repeat q c n (\<lambda>g rest. map_option (\<lambda>(gs, r). (g # gs, r)) (match_here p rest)) s = Some (gs, rest)"
      by simp
    from repeat_SomeD [OF this] obtain g r where s: "s = g @ r" and run: "run_of c n g"
      and "map_option (\<lambda>(gs, r). (g # gs, r)) (match_here p r) = Some (gs, rest)" by blast
    then obtain gs' where gs: "gs = g # gs'" and "match_here p r = Some (gs', rest)" by auto
    from Cons.IH [OF this(2)] obtain pre where "r = pre @ rest" "min_width p \<le> length pre"
      and g: "list_all2 (\<lambda>g (c, n). run_of c n g) gs' (group_items p)" by blast
    with s run Group have "s = (g @ pre) @ rest \<and> min_width (it # p) \<le> length (g @ pre)"
      by (simp add: run_of_def)
    with g gs run Group show ?thesis by auto
  qed
qed


lemma search_from_SomeD:
  "search_from pos p s = Some m \<Longrightarrow>
   \<exists>k rest. k \<le> length s \<and> match_here p (drop k s) = Some (m_groups m, rest) \<and>
     m_start m = pos + k \<and> m_end m = pos + k + (length (drop k s) - length rest)"
proof (induction pos p s rule: search_from.induct)
  case (1 pos p s)
  show ?case
  proof (cases "match_here p s")
    case (Some r)
    obtain gs rest where r: "r = (gs, rest)" by (cases r)
    with Some "1.prems" have "match_here p (drop 0 s) = Some (m_groups m, rest) \<and>
      m_start m = pos + 0 \<and> m_end m = pos + 0 + (length (drop 0 s) - length rest)"
      by (subst (asm) search_from.simps) auto
    then show ?thesis by blast
  next
    case None
    show ?thesis
    proof (cases s)
      case Nil
      with None "1.prems" show ?thesis by (subst (asm) search_from.simps) simp
    next
      case (Cons x xs)
      with None "1.prems" have "search_from (Suc pos) p xs = Some m"
        by (subst (asm) search_from.simps) simp
      from "1.IH" [OF None Cons this] obtain k rest where
        "k \<le> length xs" "match_here p (drop k xs) = Some (m_groups m, rest)"
        "m_start m = Suc pos + k" "m_end m = Suc pos + k + (length (drop k xs) - length rest)"
        by blast
      with Cons have "Suc k \<le> length s \<and> match_here p (drop (Suc k) s) = Some (m_groups m, rest) \<and>
        m_start m = pos + Suc k \<and> m_end m = pos + Suc k + (length (drop (Suc k) s) - length rest)"
        by simp
      then show ?thesis by blast
    qed
  qed
qed

lemma search_SomeD:
  assumes "search p s = Some m"
  shows "m_start m + min_width p \<le> m_end m" and "m_end m \<le> length s"
    and "match_here p (drop (m_start m) s) = Some (m_groups m, drop (m_end m) s)"
    and "list_all2 (\<lambda>g (c, n). run_of c n g) (m_groups m) (group_items p)"
proof -
  from assms obtain k rest where k: "k \<le> length s"
    and mh: "match_here p (drop k s) = Some (m_groups m, rest)"
    and st: "m_start m = k" and en: "m_end m = k + (length (drop k s) - length rest)"
    using search_from_SomeD [of 0 p s m] by (auto simp: search_def)
  from match_here_SomeD [OF mh] obtain pre where pre: "drop k s = pre @ rest"
    and w: "min_width p \<le> length pre"
    and g: "list_all2 (\<lambda>g (c, n). run_of c n g) (m_groups m) (group_items p)" by blast
  from pre have len: "length (drop k s) - length rest = length pre" by simp
  with en have en': "m_end m = k + length pre" by simp
  from w st en' show "m_start m + min_width p \<le> m_end m" by simp
  have "length (drop k s) = length pre + length rest" using pre by simp
  with k en' show "m_end m \<le> length s" by simp
  have "drop (m_end m) s = drop (length pre) (drop k s)" using en' by (simp add: add.commute)
  also have "\<dots> = rest" using pre by simp
  finally show "match_here p (drop (m_start m) s) = Some (m_groups m, drop (m_end m) s)"
    using mh st by simp
  show "list_all2 (\<lambda>g (c, n). run_of c n g) (m_groups m) (group_items p)" by (rule g)
qed

lemma search_advances:
  "0 < min_width p \<Longrightarrow> search p s = Some m \<Longrightarrow> m_start m < m_end m"
  using search_SomeD(1) [of p s m] by simp

lemma shift_zero: "shift 0 m = m"
  by (simp add: shift_def)

lemma finditer_unfold:
  "finditer p s =
     (case search p s of
        None \<Rightarrow> []
      | Some m \<Rightarrow> m # (if 0 < m_end m then finditer_from (m_end m) p (drop (m_end m) s) else []))"
  by (subst finditer_def, subst finditer_from.simps) (simp add: shift_zero split: option.splits)

lemma finditer_from_Nil: "finditer_from off p s = [] \<longleftrightarrow> search p s = None"
  by (subst finditer_from.simps) (simp split: option.splits)

lemma finditer_from_order:
  "0 < min_width p \<Longrightarrow>
   sorted_wrt (\<lambda>a b. m_end a \<le> m_start b) (finditer_from off p s) \<and>
   (\<forall>m\<in>set (finditer_from off p s). off \<le> m_start m \<and> m_start m < m_end m)"
proof (induction off p s rule: finditer_from.induct)
  case (1 off p s)
  show ?case
  proof (cases "search p s")
    case None
    then show ?thesis by (subst (1 2) finditer_from.simps) simp
  next
    case (Some m)
    from search_SomeD(1) [OF Some] "1.prems" have lt: "m_start m < m_end m" by simp
    then have pos: "0 < m_end m" by simp
    from "1.IH" [OF Some pos "1.prems"] have
      IH1: "sorted_wrt (\<lambda>a b. m_end a \<le> m_start b) (finditer_from (off + m_end m) p (drop (m_end m) s))"
      and IH2: "\<forall>m'\<in>set (finditer_from (off + m_end m) p (drop (m_end m) s)).
                  off + m_end m \<le> m_start m' \<and> m_start m' < m_end m'" by blast+
    have eq: "finditer_from off p s =
        shift off m # finditer_from (off + m_end m) p (drop (m_end m) s)"
      using Some pos by (subst finditer_from.simps) simp
    show ?thesis
      unfolding eq using IH1 IH2 lt by (auto simp: shift_def)
  qed
qed


lemma finditer_groups:
  "m \<in> set (finditer_from off p s) \<Longrightarrow>
   list_all2 (\<lambda>g (c, n). run_of c n g) (m_groups m) (group_items p)"
proof (induction off p s rule: finditer_from.induct)
  case (1 off p s)
  show ?case
  proof (cases "search p s")
    case None
    with "1.prems" show ?thesis by (subst (asm) finditer_from.simps) simp
  next
    case (Some r)
    from "1.prems" Some
    have "m = shift off r \<or>
      (0 < m_end r \<and> m \<in> set (finditer_from (off + m_end r) p (drop (m_end r) s)))"
      by (subst (asm) finditer_from.simps) (auto split: if_splits)
    then show ?thesis
    proof
      assume "m = shift off r"
      with search_SomeD(4) [OF Some] show ?thesis by (simp add: shift_def)
    next
      assume "0 < m_end r \<and> m \<in> set (finditer_from (off + m_end r) p (drop (m_end r) s))"
      then show ?thesis using "1.IH" [OF Some] by blast
    qed
  qed
qed

lemma append_matches_eq:
  "append_matches cn i methods ms =
     (if \<forall>m\<in>set ms. group m 1 = class_base_name cn
      then Inr (methods @ map (method_of cn i) ms) else Inl AssertionError)"
  by (induction ms arbitrary: methods) (auto simp: method_of_def)

lemma scan_patterns_eq:
  "scan_patterns text cn i methods ps =
     (if \<forall>m\<in>set (declarations ps text). group m 1 = class_base_name cn
      then Inr (methods @ map (method_of cn i) (declarations ps text)) else Inl AssertionError)"
proof (induction ps arbitrary: methods)
  case Nil
  then show ?case by (simp add: declarations_def)
next
  case (Cons p ps)
  have d: "declarations (p # ps) text = finditer p text @ declarations ps text"
    by (simp add: declarations_def)
  show ?case
    unfolding d by (simp add: append_matches_eq Cons.IH ball_Un)
qed

lemma get_methods_eq:
  "get_methods text cn =
     (if \<forall>m\<in>set (declarations (method_patterns @ overload_method_patterns) text).
           group m 1 = class_base_name cn
      then Inr (map (method_of cn 2) (declarations method_patterns text) @
                map (method_of cn 3) (declarations overload_method_patterns text))
      else Inl AssertionError)"
proof -
  have d: "declarations (method_patterns @ overload_method_patterns) text =
    declarations method_patterns text @ declarations overload_method_patterns text"
    by (simp add: declarations_def)
  show ?thesis
    unfolding d get_methods_def by (simp add: scan_patterns_eq ball_Un)
qed

lemma check_loop_eq:
  "check_loop names methods =
     (if \<forall>m\<in>set methods. native_method_name m \<in> names then Inr () else Inl AssertionError)"
  by (induction methods) auto

lemma collect_loop_acc:
  "collect_loop methods dir =
     (case collect_loop [] dir of Inl e \<Rightarrow> Inl e | Inr ms \<Rightarrow> Inr (methods @ ms))"
proof (induction dir arbitrary: methods)
  case Nil
  then show ?case by simp
next
  case (Cons f fs)
  show ?case
  proof (cases "parse_methods f")
    case (Inl e)
    then show ?thesis by simp
  next
    case (Inr ms)
    have "collect_loop (methods @ ms) fs =
      (case collect_loop [] fs of Inl e \<Rightarrow> Inl e | Inr r \<Rightarrow> Inr ((methods @ ms) @ r))"
      by (rule Cons.IH)
    moreover have "collect_loop ([] @ ms) fs =
      (case collect_loop [] fs of Inl e \<Rightarrow> Inl e | Inr r \<Rightarrow> Inr (([] @ ms) @ r))"
      by (rule Cons.IH)
    ultimately show ?thesis using Inr by (simp split: sum.splits)
  qed
qed

lemma collect_append:
  "collect_art_jni_methods (d1 @ d2) =
     (case collect_art_jni_methods d1 of
        Inl e \<Rightarrow> Inl e
      | Inr ms1 \<Rightarrow> (case collect_art_jni_methods d2 of Inl e \<Rightarrow> Inl e | Inr ms2 \<Rightarrow> Inr (ms1 @ ms2)))"
proof -
  have "collect_loop methods (d1 @ d2) =
    (case collect_loop methods d1 of Inl e \<Rightarrow> Inl e | Inr ms \<Rightarrow> collect_loop ms d2)" for methods
    by (induction d1 arbitrary: methods) (auto split: sum.splits)
  then have step: "collect_loop [] (d1 @ d2) =
    (case collect_loop [] d1 of Inl e \<Rightarrow> Inl e | Inr ms \<Rightarrow> collect_loop ms d2)" .
  show ?thesis
  proof (cases "collect_loop [] d1")
    case (Inl e)
    with step show ?thesis by (simp add: collect_art_jni_methods_def)
  next
    case (Inr ms1)
    with step have "collect_loop [] (d1 @ d2) = collect_loop ms1 d2" by simp
    also have "\<dots> = (case collect_loop [] d2 of Inl e \<Rightarrow> Inl e | Inr r \<Rightarrow> Inr (ms1 @ r))"
      by (rule collect_loop_acc)
    finally show ?thesis using Inr by (simp add: collect_art_jni_methods_def)
  qed
qed

lemma collect_fault:
  "f \<in> set dir \<Longrightarrow> parse_methods f = Inl e \<Longrightarrow> \<exists>e'. collect_art_jni_methods dir = Inl e'"
proof -
  assume "f \<in> set dir" and f: "parse_methods f = Inl e"
  then obtain d1 d2 where "dir = d1 @ [f] @ d2" by (auto dest: split_list)
  moreover have "collect_art_jni_methods ([f] @ d2) = Inl e"
    using f by (simp add: collect_art_jni_methods_def)
  ultimately show ?thesis
    by (simp add: collect_append [of d1] split: sum.splits del: append.simps)
qed

lemma append_lines_eq:
  "append_lines lines methods =
     lines @ map (\<lambda>m. format_method (class_name m @ ''.'' @ java_method_name m)
                         (''art::'' @ native_method_name m)) methods"
  by (induction methods arbitrary: lines) auto

lemma join_Cons: "join sep (x # xs) = x @ concat (map (\<lambda>y. sep @ y) xs)"
  by (induction xs arbitrary: x) auto





section \<open>The patterns of the parser\<close>

lemma class_name_pattern_width: "0 < min_width class_name_pattern"
  by (simp add: class_name_pattern_def lit_def)

lemma class_name_pattern_groups: "group_items class_name_pattern = [(Dot, 1)]"
  by (simp add: class_name_pattern_def lit_def)

lemma patterns_width:
  "p \<in> {class_name_pattern, static_function_pattern} \<union> set method_patterns \<union>
     set overload_method_patterns \<Longrightarrow> 0 < min_width p"
  by (auto simp: class_name_pattern_def static_function_pattern_def lit_def
      method_patterns_def overload_method_patterns_def macro_names_def)

lemma method_patterns_width:
  "p \<in> set (method_patterns @ overload_method_patterns) \<Longrightarrow> 0 < min_width p"
  by (auto simp: method_patterns_def overload_method_patterns_def macro_names_def)

lemma run_of_nonempty: "run_of c (Suc n) g \<Longrightarrow> g \<noteq> []"
  unfolding run_of_def by (cases g) simp_all

lemma run_of_Dot: "run_of Dot n g \<Longrightarrow> CHR 0x0A \<notin> set g"
  unfolding run_of_def by (metis in_cls.simps(1))

lemma class_group:
  assumes "search class_name_pattern text = Some r"
  shows "group r 1 \<noteq> []" and "CHR 0x0A \<notin> set (group r 1)"
proof -
  have "list_all2 (\<lambda>g (c, n). run_of c n g) (m_groups r) (group_items class_name_pattern)"
    using assms by (rule search_SomeD(4))
  then have "list_all2 (\<lambda>g (c, n). run_of c n g) (m_groups r) [(Dot, Suc 0)]"
    unfolding class_name_pattern_groups by simp
  then obtain g where gs: "m_groups r = [g]" and run: "run_of Dot (Suc 0) g"
    unfolding list_all2_Cons2 by auto
  from run have "g \<noteq> []" and "CHR 0x0A \<notin> set g"
    by (rule run_of_nonempty, rule run_of_Dot)
  with gs show "group r 1 \<noteq> []" and "CHR 0x0A \<notin> set (group r 1)"
    by (simp_all add: group_def)
qed

lemma get_class_name_SomeD:
  assumes "get_class_name text = Inr (Some cn)"
  shows "\<exists>r. search class_name_pattern text = Some r \<and>
             search class_name_pattern (drop (m_end r) text) = None \<and>
             cn = replace_slash (group r 1) \<and> cn \<noteq> []"
proof -
  from assms obtain r where r: "search class_name_pattern text = Some r"
    and "search class_name_pattern (drop (m_end r) text) = None"
    and "cn = replace_slash (group r 1)"
    by (auto simp: get_class_name_def split: option.splits if_splits)
  moreover from class_group(1) [OF r] have "replace_slash (group r 1) \<noteq> []"
    by (simp add: replace_slash_def)
  ultimately show ?thesis by simp
qed

lemma parse_text_registered:
  assumes "get_class_name text = Inr (Some cn)"
  shows "parse_text text =
     (case get_methods text cn of
        Inl e \<Rightarrow> Inl e
      | Inr methods \<Rightarrow>
          (case check_methods text methods of Inl e \<Rightarrow> Inl e | Inr u \<Rightarrow> Inr methods))"
  using assms get_class_name_SomeD [OF assms] by (auto simp: parse_text_def)

lemma finditer_class_name:
  "finditer class_name_pattern text =
     (case search class_name_pattern text of
        None \<Rightarrow> []
      | Some r \<Rightarrow> r # finditer_from (m_end r) class_name_pattern (drop (m_end r) text))"
proof (cases "search class_name_pattern text")
  case None
  then show ?thesis by (simp add: finditer_unfold)
next
  case (Some r)
  from search_SomeD(1) [OF Some] class_name_pattern_width have "0 < m_end r" by simp
  with Some show ?thesis by (simp add: finditer_unfold)
qed

section \<open>Files without a registration marker\<close>

text \<open>
  Claim C4. A file whose text has no registration marker (the search for
  \<^verbatim>\<open>REGISTER_NATIVE_METHODS("...")\<close> finds nothing) yields the empty list of records and
  no fault, whatever else the text holds: native-method declarations in it are not even
  looked at.
\<close>

theorem no_marker_no_records:
  "search class_name_pattern text = None \<Longrightarrow> parse_methods (TextFile text) = Inr []"
  by (simp add: parse_text_def get_class_name_def)

theorem no_marker_no_records_witness:
  "search class_name_pattern ex_unregistered = None \<and>
   length (finditer (method_patterns ! 0) ex_unregistered) = 2 \<and>
   parse_methods (TextFile ex_unregistered) = Inr []"
proof -
  have h: "search class_name_pattern ex_unregistered = None" by code_simp
  have d: "length (finditer (method_patterns ! 0) ex_unregistered) = 2" by code_simp
  from h d no_marker_no_records [OF h] show ?thesis by simp
qed

section \<open>Repeated registration markers\<close>

text \<open>
  Claim C5. When the registration marker matches more than once in a text (the scan
  for its non-overlapping matches finds at least two), parsing the file raises an
  assertion failure and returns no records.
\<close>

theorem repeated_marker_faults:
  "1 < length (finditer class_name_pattern text) \<Longrightarrow>
   parse_methods (TextFile text) = Inl AssertionError"
proof -
  assume many: "1 < length (finditer class_name_pattern text)"
  then obtain r where r: "search class_name_pattern text = Some r"
    and "finditer_from (m_end r) class_name_pattern (drop (m_end r) text) \<noteq> []"
    by (auto simp: finditer_class_name split: option.splits)
  then have "search class_name_pattern (drop (m_end r) text) \<noteq> None"
    by (simp add: finditer_from_Nil)
  with r show ?thesis by (auto simp: parse_text_def get_class_name_def)
qed

theorem repeated_marker_faults_witness:
  "1 < length (finditer class_name_pattern ex_twice) \<and>
   parse_methods (TextFile ex_twice) = Inl AssertionError"
proof -
  have h: "1 < length (finditer class_name_pattern ex_twice)" by code_simp
  from h repeated_marker_faults [OF h] show ?thesis by simp
qed

section \<open>Declarations for another class\<close>

text \<open>
  Claim C6. In a file with a registered class, a native-method declaration matched by
  any of the nine declaration patterns whose first argument is not the short name of
  the registered class makes parsing raise an assertion failure: no record is produced.
\<close>

theorem class_mismatch_faults:
  assumes "get_class_name text = Inr (Some cn)"
    and "p \<in> set (method_patterns @ overload_method_patterns)"
    and "m \<in> set (finditer p text)"
    and "group m 1 \<noteq> class_base_name cn"
  shows "parse_methods (TextFile text) = Inl AssertionError"
proof -
  from assms(2,3) have "m \<in> set (declarations (method_patterns @ overload_method_patterns) text)"
    unfolding declarations_def by auto
  with assms(4) have "get_methods text cn = Inl AssertionError"
    by (auto simp: get_methods_eq)
  then show ?thesis by (simp add: parse_text_registered [OF assms(1)])
qed

theorem class_mismatch_faults_witness:
  "get_class_name ex_other_class = Inr (Some ''a.b.Foo'') \<and>
   finditer (method_patterns ! 2) ex_other_class =
     [\<lparr>m_start = 105, m_end = 135, m_groups = [''Baz'', ''bar'']\<rparr>] \<and>
   class_base_name ''a.b.Foo'' = ''Foo'' \<and>
   parse_methods (TextFile ex_other_class) = Inl AssertionError"
proof -
  let ?m = "\<lparr>m_start = 105, m_end = 135, m_groups = [''Baz'', ''bar'']\<rparr>"
  have c: "get_class_name ex_other_class = Inr (Some ''a.b.Foo'')" by code_simp
  have p: "method_patterns ! 2 \<in> set (method_patterns @ overload_method_patterns)" by code_simp
  have f: "finditer (method_patterns ! 2) ex_other_class = [?m]" by code_simp
  then have m: "?m \<in> set (finditer (method_patterns ! 2) ex_other_class)" by simp
  have b: "class_base_name ''a.b.Foo'' = ''Foo''" by code_simp
  then have g: "group ?m 1 \<noteq> class_base_name ''a.b.Foo''" by (simp add: group_def)
  from c f b class_mismatch_faults [OF c p m g] show ?thesis by simp
qed

section \<open>Declared methods without a static function\<close>

text \<open>
  Claim C1. When the records extracted from a file include one whose native symbol name
  is not among the static function names found in the same text, parsing that file
  raises an assertion failure; a run over a directory that holds the file ends with an
  uncaught exception and exit status 1, and leaves the world as it was: nothing has been
  printed, and the stored output file has not been written, in either mode.
\<close>

theorem undefined_symbol_faults_before_output:
  assumes "TextFile text \<in> set dir"
    and "get_class_name text = Inr (Some cn)"
    and "get_methods text cn = Inr methods"
    and "method \<in> set methods"
    and "native_method_name method \<notin> static_function_names text"
  shows "parse_methods (TextFile text) = Inl AssertionError \<and>
         (\<exists>e. main check_only dir w = (Inl e, w)) \<and>
         run check_only dir w = (1, w)"
proof -
  from assms(4,5) have "check_methods text methods = Inl AssertionError"
    by (auto simp: check_methods_def check_loop_eq)
  with assms(3) have fault: "parse_methods (TextFile text) = Inl AssertionError"
    by (simp add: parse_text_registered [OF assms(2)])
  from collect_fault [OF assms(1) this] obtain e where "collect_art_jni_methods dir = Inl e" ..
  then have "main check_only dir w = (Inl e, w)" by (simp add: main_def)
  with fault show ?thesis by (simp add: run_def exit_code_def)
qed

theorem undefined_symbol_faults_before_output_witness:
  "get_methods ex_undefined ''a.b.Foo'' =
     Inr [\<lparr>class_name = ''a.b.Foo'', java_method_name = ''bar'', native_method_name = ''Foo_bar''\<rparr>,
          \<lparr>class_name = ''a.b.Foo'', java_method_name = ''baz'', native_method_name = ''Foo_baz''\<rparr>] \<and>
   ''Foo_baz'' \<notin> static_function_names ex_undefined \<and>
   parse_methods (TextFile ex_undefined) = Inl AssertionError \<and>
   run False [TextFile ex_unregistered, TextFile ex_undefined]
       \<lparr>output_file = Some ''old'', printed = []\<rparr> =
     (1, \<lparr>output_file = Some ''old'', printed = []\<rparr>)"
proof -
  let ?bar = "\<lparr>class_name = ''a.b.Foo'', java_method_name = ''bar'', native_method_name = ''Foo_bar''\<rparr>"
  let ?baz = "\<lparr>class_name = ''a.b.Foo'', java_method_name = ''baz'', native_method_name = ''Foo_baz''\<rparr>"
  have d: "TextFile ex_undefined \<in> set [TextFile ex_unregistered, TextFile ex_undefined]" by simp
  have c: "get_class_name ex_undefined = Inr (Some ''a.b.Foo'')" by code_simp
  have g: "get_methods ex_undefined ''a.b.Foo'' = Inr [?bar, ?baz]" by code_simp
  have m: "?baz \<in> set [?bar, ?baz]" by simp
  have n: "''Foo_baz'' \<notin> static_function_names ex_undefined" by code_simp
  then have n': "native_method_name ?baz \<notin> static_function_names ex_undefined" by simp
  from g n undefined_symbol_faults_before_output [OF d c g m n', of False
      "\<lparr>output_file = Some ''old'', printed = []\<rparr>"]
  show ?thesis by simp
qed

section \<open>Class names are dotted\<close>



section \<open>Facts about rendering and the driver\<close>

lemma to_str_eq:
  "art_jni_methods_to_str methods =
     ''// This file is generated by generate_art_jni_method_table.py.'' @ [CHR 0x0A] @
     ''// clang-format off'' @
     concat (map (\<lambda>m. [CHR 0x0A] @
                format_method (class_name m @ ''.'' @ java_method_name m)
                  (''art::'' @ native_method_name m)) methods)"
  unfolding art_jni_methods_to_str_def append_lines_eq header_def
  by (simp add: join_Cons comp_def)

lemma main_check_only:
  assumes "collect_art_jni_methods dir = Inr methods" and "output_file w = Some stored"
  shows "main True dir w =
     (if art_jni_methods_to_str methods \<noteq> stored
      then (Inr False, w\<lparr>printed := printed w @ [''ART native methods have changed'']\<rparr>)
      else (Inr True, w))"
  using assms by (simp add: main_def)

lemma main_check_only_file: "output_file (snd (main True dir w)) = output_file w"
  by (simp add: main_def Let_def split: sum.splits option.splits)

lemma last_to_str:
  "art_jni_methods_to_str methods \<noteq> [] \<and> last (art_jni_methods_to_str methods) \<noteq> CHR 0x0A"
proof (cases methods rule: rev_cases)
  case Nil
  then show ?thesis unfolding to_str_eq by simp
next
  case (snoc ms m)
  then show ?thesis unfolding to_str_eq format_method_def by simp
qed

section \<open>The rendered text\<close>

text \<open>
  Claim C7. For every list of records the rendered text is the two fixed header comment
  lines followed, for each record in order, by a line
  \<^verbatim>\<open>ART_JNI_METHOD("<class>.<method>", "art::<symbol>")\<close>, the lines separated by one
  newline. For the single record of class \<open>a.b.Foo\<close>, method \<open>bar\<close> and symbol \<open>Foo_bar\<close>
  the text is the header and the one line with identifier \<open>a.b.Foo.bar\<close> and symbol
  reference \<open>art::Foo_bar\<close>.
\<close>

theorem rendered_text_format:
  \<open>art_jni_methods_to_str methods =
     ''// This file is generated by generate_art_jni_method_table.py.'' @ ''\<newline>'' @
     ''// clang-format off'' @
     concat (map (\<lambda>m. ''\<newline>'' @ ''ART_JNI_METHOD("'' @ class_name m @ ''.'' @
                          java_method_name m @ ''", "art::'' @ native_method_name m @ ''")'')
               methods) \<and>
   art_jni_methods_to_str
     [\<lparr>class_name = ''a.b.Foo'', java_method_name = ''bar'', native_method_name = ''Foo_bar''\<rparr>] =
     ''// This file is generated by generate_art_jni_method_table.py.\<newline>'' @
     ''// clang-format off\<newline>'' @
     ''ART_JNI_METHOD("a.b.Foo.bar", "art::Foo_bar")''\<close>
proof
  show \<open>art_jni_methods_to_str methods =
     ''// This file is generated by generate_art_jni_method_table.py.'' @ ''\<newline>'' @
     ''// clang-format off'' @
     concat (map (\<lambda>m. ''\<newline>'' @ ''ART_JNI_METHOD("'' @ class_name m @ ''.'' @
                          java_method_name m @ ''", "art::'' @ native_method_name m @ ''")'')
               methods)\<close>
    unfolding to_str_eq format_method_def by simp
  show \<open>art_jni_methods_to_str
     [\<lparr>class_name = ''a.b.Foo'', java_method_name = ''bar'', native_method_name = ''Foo_bar''\<rparr>] =
     ''// This file is generated by generate_art_jni_method_table.py.\<newline>'' @
     ''// clang-format off\<newline>'' @
     ''ART_JNI_METHOD("a.b.Foo.bar", "art::Foo_bar")''\<close>
    unfolding to_str_eq format_method_def by simp
qed

section \<open>Verify mode\<close>

text \<open>
  With \<^verbatim>\<open>--check-only\<close> and the stored file's text as \<^verbatim>\<open>read_text\<close> returns it: the run
  exits with 0 exactly when the records were collected and that text equals the rendered
  text; the text of the stored file is the same after the run; and when the texts differ
  the run prints \<^verbatim>\<open>ART native methods have changed\<close> and exits with 1.
\<close>

lemma check_only_run:
  "(fst (run True dir w) = 0 \<longleftrightarrow>
      (\<exists>methods. collect_art_jni_methods dir = Inr methods \<and>
                 output_file w = Some (art_jni_methods_to_str methods))) \<and>
   output_file (snd (run True dir w)) = output_file w \<and>
   (\<forall>methods stored.
      collect_art_jni_methods dir = Inr methods \<longrightarrow> output_file w = Some stored \<longrightarrow>
      stored \<noteq> art_jni_methods_to_str methods \<longrightarrow>
      run True dir w = (1, w\<lparr>printed := printed w @ [''ART native methods have changed'']\<rparr>))"
proof (intro conjI allI impI)
  show "fst (run True dir w) = 0 \<longleftrightarrow>
      (\<exists>methods. collect_art_jni_methods dir = Inr methods \<and>
                 output_file w = Some (art_jni_methods_to_str methods))"
  proof (cases "collect_art_jni_methods dir")
    case (Inl e)
    then show ?thesis by (simp add: run_def main_def exit_code_def)
  next
    case (Inr methods)
    show ?thesis
    proof (cases "output_file w")
      case None
      with Inr show ?thesis by (simp add: run_def main_def exit_code_def)
    next
      case (Some stored)
      from main_check_only [OF Inr Some] Inr Some show ?thesis
        by (auto simp: run_def exit_code_def)
    qed
  qed
next
  show "output_file (snd (run True dir w)) = output_file w"
    using main_check_only_file [of dir w] by (cases "main True dir w") (simp add: run_def)
next
  fix methods stored
  assume "collect_art_jni_methods dir = Inr methods" and "output_file w = Some stored"
    and "stored \<noteq> art_jni_methods_to_str methods"
  with main_check_only [of dir methods w stored]
  show "run True dir w = (1, w\<lparr>printed := printed w @ [''ART native methods have changed'']\<rparr>)"
    by (auto simp: run_def exit_code_def)
qed

lemma stored_text_Some:
  "stored_text decode stored = Some x \<longleftrightarrow>
     (\<exists>bytes t. stored = Some bytes \<and> decode bytes = Some t \<and> x = universal_newlines t)"
  by (auto simp: stored_text_def read_text_def split: option.splits)

text \<open>
  Claim C8, as stated, against the code. The specification says that the run succeeds
  exactly when the rendered text is byte-for-byte equal to the stored file. The code
  compares with what \<^verbatim>\<open>read_text\<close> returns: a stored file with the line ends \<^verbatim>\<open>\r\n\<close>
  differs from the rendered text in its bytes, and the run still exits with 0.
\<close>

theorem crlf_file_passes_verification:
  "ex_crlf \<noteq>
     art_jni_methods_to_str
       [\<lparr>class_name = ''a.b.Foo'', java_method_name = ''bar'', native_method_name = ''Foo_bar''\<rparr>] \<and>
   collect_art_jni_methods [TextFile ex_complete] =
     Inr [\<lparr>class_name = ''a.b.Foo'', java_method_name = ''bar'', native_method_name = ''Foo_bar''\<rparr>] \<and>
   fst (run True [TextFile ex_complete] (on_disk decode_ascii (Some ex_crlf) [])) = 0"
proof -
  let ?bar = "\<lparr>class_name = ''a.b.Foo'', java_method_name = ''bar'',
                native_method_name = ''Foo_bar''\<rparr>"
  have "ex_crlf \<noteq> art_jni_methods_to_str [?bar]" by code_simp
  moreover have "collect_art_jni_methods [TextFile ex_complete] = Inr [?bar]" by code_simp
  moreover have "fst (run True [TextFile ex_complete] (on_disk decode_ascii (Some ex_crlf) [])) = 0"
    by code_simp
  ultimately show ?thesis by (intro conjI)
qed

text \<open>
  Claim C8, amended. In verify mode the run exits with 0 exactly when the records were
  collected, the stored file exists and decodes, and its text as read in text mode (the
  decoded bytes with every \<^verbatim>\<open>\r\n\<close> and every other \<^verbatim>\<open>\r\<close> translated to \<^verbatim>\<open>\n\<close>) equals
  the freshly rendered text. The text of the stored file is the same after the run. When
  the text read differs from the rendered text, the run prints
  \<^verbatim>\<open>ART native methods have changed\<close> and exits with 1.
\<close>

theorem verify_mode_compares_read_text:
  "(fst (run True dir (on_disk decode stored pr)) = 0 \<longleftrightarrow>
      (\<exists>methods bytes t.
         collect_art_jni_methods dir = Inr methods \<and> stored = Some bytes \<and>
         decode bytes = Some t \<and> universal_newlines t = art_jni_methods_to_str methods)) \<and>
   output_file (snd (run True dir (on_disk decode stored pr))) = stored_text decode stored \<and>
   (\<forall>methods bytes t.
      collect_art_jni_methods dir = Inr methods \<longrightarrow> stored = Some bytes \<longrightarrow>
      decode bytes = Some t \<longrightarrow> universal_newlines t \<noteq> art_jni_methods_to_str methods \<longrightarrow>
      run True dir (on_disk decode stored pr) =
        (1, \<lparr>output_file = Some (universal_newlines t),
             printed = pr @ [''ART native methods have changed'']\<rparr>))"
proof (intro conjI allI impI)
  let ?w = "on_disk decode stored pr"
  have outf: "output_file ?w = stored_text decode stored" by (simp add: on_disk_def)
  have "fst (run True dir ?w) = 0 \<longleftrightarrow>
      (\<exists>methods. collect_art_jni_methods dir = Inr methods \<and>
                 output_file ?w = Some (art_jni_methods_to_str methods))"
    by (rule check_only_run [THEN conjunct1])
  also have "\<dots> \<longleftrightarrow> (\<exists>methods bytes t.
         collect_art_jni_methods dir = Inr methods \<and> stored = Some bytes \<and>
         decode bytes = Some t \<and> universal_newlines t = art_jni_methods_to_str methods)"
    unfolding outf stored_text_Some by metis
  finally show "fst (run True dir ?w) = 0 \<longleftrightarrow> (\<exists>methods bytes t.
         collect_art_jni_methods dir = Inr methods \<and> stored = Some bytes \<and>
         decode bytes = Some t \<and> universal_newlines t = art_jni_methods_to_str methods)" .
  show "output_file (snd (run True dir ?w)) = stored_text decode stored"
    using check_only_run [of dir ?w, THEN conjunct2, THEN conjunct1] outf by simp
next
  fix methods bytes t
  assume c: "collect_art_jni_methods dir = Inr methods" and s: "stored = Some bytes"
    and d: "decode bytes = Some t"
    and ne: "universal_newlines t \<noteq> art_jni_methods_to_str methods"
  let ?w = "on_disk decode stored pr"
  have outf: "output_file ?w = Some (universal_newlines t)"
    using s d by (simp add: on_disk_def stored_text_def read_text_def)
  have "run True dir ?w = (1, ?w\<lparr>printed := printed ?w @ [''ART native methods have changed'']\<rparr>)"
    by (rule check_only_run [of dir ?w, THEN conjunct2, THEN conjunct2, rule_format, OF c outf ne])
  also have "?w\<lparr>printed := printed ?w @ [''ART native methods have changed'']\<rparr> =
      \<lparr>output_file = Some (universal_newlines t),
       printed = pr @ [''ART native methods have changed'']\<rparr>"
    using s d by (simp add: on_disk_def stored_text_def read_text_def)
  finally show "run True dir ?w =
      (1, \<lparr>output_file = Some (universal_newlines t),
           printed = pr @ [''ART native methods have changed'']\<rparr>)" .
qed

theorem verify_mode_compares_read_text_witness:
  \<open>collect_art_jni_methods [TextFile ex_complete] =
     Inr [\<lparr>class_name = ''a.b.Foo'', java_method_name = ''bar'',
           native_method_name = ''Foo_bar''\<rparr>] \<and>
   decode_ascii ex_crlf = Some ex_crlf \<and>
   universal_newlines ex_crlf =
     art_jni_methods_to_str
       [\<lparr>class_name = ''a.b.Foo'', java_method_name = ''bar'', native_method_name = ''Foo_bar''\<rparr>] \<and>
   fst (run True [TextFile ex_complete] (on_disk decode_ascii (Some ex_crlf) [])) = 0 \<and>
   run True [TextFile ex_complete] (on_disk decode_ascii (Some ''stale'') []) =
     (1, \<lparr>output_file = Some ''stale'', printed = [''ART native methods have changed'']\<rparr>)\<close>
proof -
  let ?bar = "\<lparr>class_name = ''a.b.Foo'', java_method_name = ''bar'',
                native_method_name = ''Foo_bar''\<rparr>"
  have c: "collect_art_jni_methods [TextFile ex_complete] = Inr [?bar]" by code_simp
  have d: "decode_ascii ex_crlf = Some ex_crlf" by code_simp
  have u: "universal_newlines ex_crlf = art_jni_methods_to_str [?bar]" by code_simp
  have d': "decode_ascii ''stale'' = Some ''stale''" by code_simp
  have u': "universal_newlines ''stale'' = ''stale''" by code_simp
  have ne: "universal_newlines ''stale'' \<noteq> art_jni_methods_to_str [?bar]" by code_simp
  have "\<exists>methods bytes t.
      collect_art_jni_methods [TextFile ex_complete] = Inr methods \<and> Some ex_crlf = Some bytes \<and>
      decode_ascii bytes = Some t \<and> universal_newlines t = art_jni_methods_to_str methods"
    using c d u by (intro exI conjI) (rule c, rule refl, rule d, rule u)
  then have r1: "fst (run True [TextFile ex_complete] (on_disk decode_ascii (Some ex_crlf) [])) = 0"
    by (rule verify_mode_compares_read_text
        [of "[TextFile ex_complete]" decode_ascii "Some ex_crlf" "[]", THEN conjunct1, THEN iffD2])
  have "run True [TextFile ex_complete] (on_disk decode_ascii (Some ''stale'') []) =
      (1, \<lparr>output_file = Some (universal_newlines ''stale''),
           printed = [] @ [''ART native methods have changed'']\<rparr>)"
    by (rule verify_mode_compares_read_text
        [of "[TextFile ex_complete]" decode_ascii "Some ''stale''" "[]",
         THEN conjunct2, THEN conjunct2, rule_format, OF c refl d' ne])
  then have r2: "run True [TextFile ex_complete] (on_disk decode_ascii (Some ''stale'') []) =
      (1, \<lparr>output_file = Some ''stale'', printed = [''ART native methods have changed'']\<rparr>)"
    unfolding u' by simp
  from c d u r1 r2 show ?thesis by (intro conjI)
qed

section \<open>No trailing newline\<close>

text \<open>
  Claim C10. The rendered text is never empty and never ends with a newline; for no
  records it is exactly the two header lines joined by one newline. Verify mode compares
  under the same convention: the file that generate mode writes is the rendered text and
  passes verification, and the same text with a newline added at the end does not.
\<close>

theorem no_trailing_newline:
  "art_jni_methods_to_str methods \<noteq> [] \<and>
   last (art_jni_methods_to_str methods) \<noteq> CHR 0x0A \<and>
   art_jni_methods_to_str [] =
     ''// This file is generated by generate_art_jni_method_table.py.'' @ [CHR 0x0A] @
     ''// clang-format off'' \<and>
   (collect_art_jni_methods dir = Inr methods \<longrightarrow>
      main False dir w = (Inr True, w\<lparr>output_file := Some (art_jni_methods_to_str methods)\<rparr>) \<and>
      main True dir (w\<lparr>output_file := Some (art_jni_methods_to_str methods)\<rparr>) =
        (Inr True, w\<lparr>output_file := Some (art_jni_methods_to_str methods)\<rparr>) \<and>
      fst (main True dir (w\<lparr>output_file := Some (art_jni_methods_to_str methods @ [CHR 0x0A])\<rparr>)) =
        Inr False)"
proof (intro conjI impI)
  show "art_jni_methods_to_str methods \<noteq> []"
    and "last (art_jni_methods_to_str methods) \<noteq> CHR 0x0A"
    using last_to_str [of methods] by simp_all
  show "art_jni_methods_to_str [] =
     ''// This file is generated by generate_art_jni_method_table.py.'' @ [CHR 0x0A] @
     ''// clang-format off''"
    unfolding to_str_eq by simp
next
  assume c: "collect_art_jni_methods dir = Inr methods"
  then show "main False dir w =
      (Inr True, w\<lparr>output_file := Some (art_jni_methods_to_str methods)\<rparr>)"
    by (simp add: main_def)
  from c show "main True dir (w\<lparr>output_file := Some (art_jni_methods_to_str methods)\<rparr>) =
        (Inr True, w\<lparr>output_file := Some (art_jni_methods_to_str methods)\<rparr>)"
    by (simp add: main_def)
  from c show "fst (main True dir
      (w\<lparr>output_file := Some (art_jni_methods_to_str methods @ [CHR 0x0A])\<rparr>)) = Inr False"
    by (simp add: main_def)
qed

theorem no_trailing_newline_witness:
  \<open>collect_art_jni_methods [TextFile ex_unregistered] = Inr [] \<and>
   main False [TextFile ex_unregistered] \<lparr>output_file = None, printed = []\<rparr> =
     (Inr True,
      \<lparr>output_file = Some (''// This file is generated by generate_art_jni_method_table.py.\<newline>'' @
         ''// clang-format off''), printed = []\<rparr>) \<and>
   fst (main True [TextFile ex_unregistered]
     \<lparr>output_file = Some (''// This file is generated by generate_art_jni_method_table.py.\<newline>'' @
        ''// clang-format off\<newline>''), printed = []\<rparr>) = Inr False\<close>
proof -
  let ?w = "\<lparr>output_file = None, printed = []\<rparr>"
  have c: "collect_art_jni_methods [TextFile ex_unregistered] = Inr []" by code_simp
  from no_trailing_newline [of "[]" "[TextFile ex_unregistered]" ?w] c
  have t: "art_jni_methods_to_str [] =
      ''// This file is generated by generate_art_jni_method_table.py.'' @ [CHR 0x0A] @
      ''// clang-format off''"
    and g: "main False [TextFile ex_unregistered] ?w =
      (Inr True, ?w\<lparr>output_file := Some (art_jni_methods_to_str [])\<rparr>)"
    and v: "fst (main True [TextFile ex_unregistered]
      (?w\<lparr>output_file := Some (art_jni_methods_to_str [] @ [CHR 0x0A])\<rparr>)) = Inr False"
    by blast+
  from c g v show ?thesis unfolding t by simp
qed

section \<open>Records and declarations\<close>

lemma one_marker:
  assumes "finditer class_name_pattern text = [r]"
  shows "get_class_name text = Inr (Some (replace_slash (group r 1)))"
proof -
  from assms have r: "search class_name_pattern text = Some r"
    and "finditer_from (m_end r) class_name_pattern (drop (m_end r) text) = []"
    by (auto simp: finditer_class_name split: option.splits)
  then have "search class_name_pattern (drop (m_end r) text) = None"
    by (simp add: finditer_from_Nil)
  with r show ?thesis by (simp add: get_class_name_def)
qed

lemma parse_text_records:
  assumes "get_class_name text = Inr (Some cn)" and "parse_text text = Inr methods"
  shows "methods = map (method_of cn 2) (declarations method_patterns text) @
                   map (method_of cn 3) (declarations overload_method_patterns text)"
proof -
  from assms(2) have "get_methods text cn = Inr methods"
    by (auto simp: parse_text_registered [OF assms(1)] split: sum.splits)
  then show ?thesis by (auto simp: get_methods_eq split: if_splits)
qed

section \<open>One record for each declaration\<close>

text \<open>
  Claim C2, as stated, against the code. The specification says that the symbol name is the short class
  name concatenated with the method name; the code puts an underscore between the two,
  as the first theorem shows on a small file: the record for method \<open>bar\<close> of class
  \<open>Foo\<close> has the symbol \<open>Foo_bar\<close>.
\<close>

theorem symbol_is_not_plain_concatenation:
  "parse_text ex_complete =
     Inr [\<lparr>class_name = ''a.b.Foo'', java_method_name = ''bar'',
           native_method_name = ''Foo_bar''\<rparr>] \<and>
   class_base_name ''a.b.Foo'' = ''Foo'' \<and>
   ''Foo_bar'' \<noteq> ''Foo'' @ ''bar''"
proof -
  have "parse_text ex_complete =
     Inr [\<lparr>class_name = ''a.b.Foo'', java_method_name = ''bar'',
           native_method_name = ''Foo_bar''\<rparr>]" by code_simp
  moreover have "class_base_name ''a.b.Foo'' = ''Foo''" by code_simp
  ultimately show ?thesis by simp
qed

text \<open>
  Claim C2, amended. For a text with exactly one registration marker, in which every
  declaration matched by the nine patterns names the short class name as its class and
  every symbol so generated is among the static function names of the text, parsing
  returns exactly one record for each matched declaration; and the record of each
  declaration of a plain form has the class name of the marker in dotted form, the method
  name of the declaration, and as symbol the short class name, an underscore and the
  method name.
\<close>

theorem one_record_per_declaration:
  assumes "finditer class_name_pattern text = [r]"
    and "\<forall>m\<in>set (declarations (method_patterns @ overload_method_patterns) text).
           group m 1 = class_base_name (replace_slash (group r 1))"
    and "\<forall>m\<in>set (declarations method_patterns text).
           class_base_name (replace_slash (group r 1)) @ ''_'' @ group m 2
             \<in> static_function_names text"
    and "\<forall>m\<in>set (declarations overload_method_patterns text).
           class_base_name (replace_slash (group r 1)) @ ''_'' @ group m 3
             \<in> static_function_names text"
  shows "\<exists>methods.
           parse_text text = Inr methods \<and>
           length methods =
             length (declarations (method_patterns @ overload_method_patterns) text) \<and>
           (\<forall>i<length (declarations method_patterns text).
              class_name (methods ! i) = replace_slash (group r 1) \<and>
              java_method_name (methods ! i) = group (declarations method_patterns text ! i) 2 \<and>
              native_method_name (methods ! i) =
                class_base_name (replace_slash (group r 1)) @ ''_'' @
                java_method_name (methods ! i))"
proof -
  define cn where "cn = replace_slash (group r 1)"
  define plain where "plain = declarations method_patterns text"
  define over where "over = declarations overload_method_patterns text"
  define methods where "methods = map (method_of cn 2) plain @ map (method_of cn 3) over"
  have all: "declarations (method_patterns @ overload_method_patterns) text = plain @ over"
    by (simp add: declarations_def plain_def over_def)
  have cls: "get_class_name text = Inr (Some cn)"
    unfolding cn_def using assms(1) by (rule one_marker)
  have "get_methods text cn = Inr methods"
    using assms(2) unfolding get_methods_eq methods_def plain_def over_def cn_def by simp
  moreover have "\<forall>m\<in>set methods. native_method_name m \<in> static_function_names text"
    using assms(3,4) unfolding methods_def plain_def over_def cn_def
    by (auto simp: method_of_def)
  then have "check_methods text methods = Inr ()"
    by (simp add: check_methods_def check_loop_eq)
  ultimately have p: "parse_text text = Inr methods"
    by (simp add: parse_text_registered [OF cls])
  have len: "length methods = length (plain @ over)"
    by (simp add: methods_def)
  have nth: "methods ! i = method_of cn 2 (plain ! i)" if "i < length plain" for i
    using that by (simp add: methods_def nth_append)
  have "\<forall>i<length plain.
      class_name (methods ! i) = cn \<and>
      java_method_name (methods ! i) = group (plain ! i) 2 \<and>
      native_method_name (methods ! i) = class_base_name cn @ ''_'' @ java_method_name (methods ! i)"
    by (simp add: nth method_of_def)
  with p len show ?thesis
    unfolding all unfolding plain_def cn_def by blast
qed


theorem one_record_per_declaration_witness:
  "finditer class_name_pattern ex_overloaded =
     [\<lparr>m_start = 0, m_end = 32, m_groups = [''a/Bar'']\<rparr>] \<and>
   length (declarations method_patterns ex_overloaded) = 1 \<and>
   length (declarations (method_patterns @ overload_method_patterns) ex_overloaded) = 2 \<and>
   (\<exists>methods.
      parse_text ex_overloaded = Inr methods \<and> length methods = 2 \<and>
      class_name (methods ! 0) = ''a.Bar'' \<and>
      java_method_name (methods ! 0) = ''run'' \<and>
      native_method_name (methods ! 0) = ''Bar_run'')"
proof -
  let ?r = "\<lparr>m_start = 0, m_end = 32, m_groups = [''a/Bar'']\<rparr>"
  have one: "finditer class_name_pattern ex_overloaded = [?r]" by code_simp
  have cn: "replace_slash (group ?r 1) = ''a.Bar''" by code_simp
  have short: "class_base_name ''a.Bar'' = ''Bar''" by code_simp
  have n1: "length (declarations method_patterns ex_overloaded) = 1" by code_simp
  have n2: "length (declarations (method_patterns @ overload_method_patterns) ex_overloaded) = 2"
    by code_simp
  have run: "group (declarations method_patterns ex_overloaded ! 0) 2 = ''run''" by code_simp
  have h2: "\<forall>m\<in>set (declarations (method_patterns @ overload_method_patterns) ex_overloaded).
      group m 1 = class_base_name (replace_slash (group ?r 1))"
    by code_simp
  have h3: "\<forall>m\<in>set (declarations method_patterns ex_overloaded).
      class_base_name (replace_slash (group ?r 1)) @ ''_'' @ group m 2
        \<in> static_function_names ex_overloaded"
    by code_simp
  have h4: "\<forall>m\<in>set (declarations overload_method_patterns ex_overloaded).
      class_base_name (replace_slash (group ?r 1)) @ ''_'' @ group m 3
        \<in> static_function_names ex_overloaded"
    by code_simp
  from one_record_per_declaration [OF one h2 h3 h4]
  obtain methods where p: "parse_text ex_overloaded = Inr methods"
    and len: "length methods =
      length (declarations (method_patterns @ overload_method_patterns) ex_overloaded)"
    and each: "\<forall>i<length (declarations method_patterns ex_overloaded).
      class_name (methods ! i) = replace_slash (group ?r 1) \<and>
      java_method_name (methods ! i) = group (declarations method_patterns ex_overloaded ! i) 2 \<and>
      native_method_name (methods ! i) =
        class_base_name (replace_slash (group ?r 1)) @ ''_'' @ java_method_name (methods ! i)"
    by (elim exE conjE)
  from len have l: "length methods = 2" unfolding n2 .
  have pos: "0 < length (declarations method_patterns ex_overloaded)" unfolding n1 by simp
  have first: "class_name (methods ! 0) = replace_slash (group ?r 1) \<and>
      java_method_name (methods ! 0) = group (declarations method_patterns ex_overloaded ! 0) 2 \<and>
      native_method_name (methods ! 0) =
        class_base_name (replace_slash (group ?r 1)) @ ''_'' @ java_method_name (methods ! 0)"
    by (rule each [rule_format, OF pos])
  then have c: "class_name (methods ! 0) = ''a.Bar''"
    and j: "java_method_name (methods ! 0) = ''run''"
    unfolding cn run by (rule conjunct1, rule conjunct2 [THEN conjunct1])
  from first have "native_method_name (methods ! 0) =
      class_base_name ''a.Bar'' @ ''_'' @ java_method_name (methods ! 0)"
    unfolding cn by (rule conjunct2 [THEN conjunct2])
  then have n: "native_method_name (methods ! 0) = ''Bar_run''"
    unfolding short j by simp
  from p l c j n have "\<exists>methods.
      parse_text ex_overloaded = Inr methods \<and> length methods = 2 \<and>
      class_name (methods ! 0) = ''a.Bar'' \<and>
      java_method_name (methods ! 0) = ''run'' \<and>
      native_method_name (methods ! 0) = ''Bar_run''"
    by (intro exI [of _ methods] conjI)
  with one n1 n2 show ?thesis by (intro conjI)
qed

section \<open>The order of the records\<close>

text \<open>
  Claim C3, as stated, against the code. The specification says that within a file the records come in the
  order of the text. They do not: \<^verbatim>\<open>_get_methods\<close> scans the text once for each pattern,
  so a \<^verbatim>\<open>FAST_NATIVE_METHOD\<close> declaration that stands before two \<^verbatim>\<open>NATIVE_METHOD\<close>
  declarations gives the last record.
\<close>

theorem later_declaration_recorded_first:
  "finditer (method_patterns ! 2) ex_order =
     [\<lparr>m_start = 89, m_end = 116, m_groups = [''Foo'', ''x'']\<rparr>] \<and>
   finditer (method_patterns ! 0) ex_order =
     [\<lparr>m_start = 117, m_end = 139, m_groups = [''Foo'', ''y'']\<rparr>,
      \<lparr>m_start = 140, m_end = 162, m_groups = [''Foo'', ''z'']\<rparr>] \<and>
   parse_text ex_order =
     Inr [\<lparr>class_name = ''a.Foo'', java_method_name = ''y'', native_method_name = ''Foo_y''\<rparr>,
          \<lparr>class_name = ''a.Foo'', java_method_name = ''z'', native_method_name = ''Foo_z''\<rparr>,
          \<lparr>class_name = ''a.Foo'', java_method_name = ''x'', native_method_name = ''Foo_x''\<rparr>]"
proof -
  have "finditer (method_patterns ! 2) ex_order =
     [\<lparr>m_start = 89, m_end = 116, m_groups = [''Foo'', ''x'']\<rparr>]" by code_simp
  moreover have "finditer (method_patterns ! 0) ex_order =
     [\<lparr>m_start = 117, m_end = 139, m_groups = [''Foo'', ''y'']\<rparr>,
      \<lparr>m_start = 140, m_end = 162, m_groups = [''Foo'', ''z'']\<rparr>]" by code_simp
  moreover have "parse_text ex_order =
     Inr [\<lparr>class_name = ''a.Foo'', java_method_name = ''y'', native_method_name = ''Foo_y''\<rparr>,
          \<lparr>class_name = ''a.Foo'', java_method_name = ''z'', native_method_name = ''Foo_z''\<rparr>,
          \<lparr>class_name = ''a.Foo'', java_method_name = ''x'', native_method_name = ''Foo_x''\<rparr>]"
    by code_simp
  ultimately show ?thesis by (intro conjI)
qed

text \<open>
  Claim C3, amended. The records of earlier files come before those of later files.
  Within one file the records are grouped by declaration form, in the fixed order of the
  patterns: \<^verbatim>\<open>NATIVE_METHOD\<close>, \<^verbatim>\<open>NATIVE_METHODAUTOSIG\<close>, \<^verbatim>\<open>FAST_NATIVE_METHOD\<close>,
  \<^verbatim>\<open>FAST_NATIVE_METHODAUTOSIG\<close>, \<^verbatim>\<open>CRITICAL_NATIVE_METHOD\<close>,
  \<^verbatim>\<open>CRITICAL_NATIVE_METHODAUTOSIG\<close>, then the three \<^verbatim>\<open>OVERLOADED_\<close> forms; the matches
  of one form do not overlap and come in the order of the text.
\<close>

theorem records_by_file_form_and_position:
  "(collect_art_jni_methods (d1 @ d2) = Inr methods \<longrightarrow>
      (\<exists>ms1 ms2. collect_art_jni_methods d1 = Inr ms1 \<and>
                 collect_art_jni_methods d2 = Inr ms2 \<and> methods = ms1 @ ms2)) \<and>
   (get_class_name text = Inr (Some cn) \<longrightarrow> parse_text text = Inr ms \<longrightarrow>
      ms = map (method_of cn 2) (declarations method_patterns text) @
           map (method_of cn 3) (declarations overload_method_patterns text)) \<and>
   (\<forall>p\<in>set (method_patterns @ overload_method_patterns).
      sorted_wrt (\<lambda>a b. m_end a \<le> m_start b) (finditer p text))"
proof (intro conjI impI ballI)
  assume "collect_art_jni_methods (d1 @ d2) = Inr methods"
  then show "\<exists>ms1 ms2. collect_art_jni_methods d1 = Inr ms1 \<and>
                 collect_art_jni_methods d2 = Inr ms2 \<and> methods = ms1 @ ms2"
    unfolding collect_append by (auto split: sum.splits)
next
  assume "get_class_name text = Inr (Some cn)" and "parse_text text = Inr ms"
  then show "ms = map (method_of cn 2) (declarations method_patterns text) @
           map (method_of cn 3) (declarations overload_method_patterns text)"
    by (rule parse_text_records)
next
  fix p assume "p \<in> set (method_patterns @ overload_method_patterns)"
  then have "0 < min_width p" by (rule method_patterns_width)
  from finditer_from_order [OF this, of 0 "text"]
  show "sorted_wrt (\<lambda>a b. m_end a \<le> m_start b) (finditer p text)"
    by (simp add: finditer_def)
qed

theorem records_by_file_form_and_position_witness:
  "collect_art_jni_methods ([TextFile ex_complete] @ [TextFile ex_order]) =
     Inr [\<lparr>class_name = ''a.b.Foo'', java_method_name = ''bar'', native_method_name = ''Foo_bar''\<rparr>,
          \<lparr>class_name = ''a.Foo'', java_method_name = ''y'', native_method_name = ''Foo_y''\<rparr>,
          \<lparr>class_name = ''a.Foo'', java_method_name = ''z'', native_method_name = ''Foo_z''\<rparr>,
          \<lparr>class_name = ''a.Foo'', java_method_name = ''x'', native_method_name = ''Foo_x''\<rparr>] \<and>
   (\<exists>ms1 ms2. collect_art_jni_methods [TextFile ex_complete] = Inr ms1 \<and>
      collect_art_jni_methods [TextFile ex_order] = Inr ms2 \<and>
      [\<lparr>class_name = ''a.b.Foo'', java_method_name = ''bar'', native_method_name = ''Foo_bar''\<rparr>,
       \<lparr>class_name = ''a.Foo'', java_method_name = ''y'', native_method_name = ''Foo_y''\<rparr>,
       \<lparr>class_name = ''a.Foo'', java_method_name = ''z'', native_method_name = ''Foo_z''\<rparr>,
       \<lparr>class_name = ''a.Foo'', java_method_name = ''x'', native_method_name = ''Foo_x''\<rparr>] =
      ms1 @ ms2) \<and>
   [\<lparr>class_name = ''a.Foo'', java_method_name = ''y'', native_method_name = ''Foo_y''\<rparr>,
    \<lparr>class_name = ''a.Foo'', java_method_name = ''z'', native_method_name = ''Foo_z''\<rparr>,
    \<lparr>class_name = ''a.Foo'', java_method_name = ''x'', native_method_name = ''Foo_x''\<rparr>] =
     map (method_of ''a.Foo'' 2) (declarations method_patterns ex_order) @
     map (method_of ''a.Foo'' 3) (declarations overload_method_patterns ex_order) \<and>
   sorted_wrt (\<lambda>a b. m_end a \<le> m_start b) (finditer (method_patterns ! 0) ex_order)"
proof -
  let ?bar = "\<lparr>class_name = ''a.b.Foo'', java_method_name = ''bar'', native_method_name = ''Foo_bar''\<rparr>"
  let ?x = "\<lparr>class_name = ''a.Foo'', java_method_name = ''x'', native_method_name = ''Foo_x''\<rparr>"
  let ?y = "\<lparr>class_name = ''a.Foo'', java_method_name = ''y'', native_method_name = ''Foo_y''\<rparr>"
  let ?z = "\<lparr>class_name = ''a.Foo'', java_method_name = ''z'', native_method_name = ''Foo_z''\<rparr>"
  have c: "collect_art_jni_methods ([TextFile ex_complete] @ [TextFile ex_order]) =
      Inr [?bar, ?y, ?z, ?x]" by code_simp
  have g: "get_class_name ex_order = Inr (Some ''a.Foo'')" by code_simp
  have p: "parse_text ex_order = Inr [?y, ?z, ?x]" by code_simp
  have m: "method_patterns ! 0 \<in> set (method_patterns @ overload_method_patterns)" by code_simp
  note inst = records_by_file_form_and_position
    [of "[TextFile ex_complete]" "[TextFile ex_order]" "[?bar, ?y, ?z, ?x]" ex_order
        "''a.Foo''" "[?y, ?z, ?x]"]
  have 1: "\<exists>ms1 ms2. collect_art_jni_methods [TextFile ex_complete] = Inr ms1 \<and>
      collect_art_jni_methods [TextFile ex_order] = Inr ms2 \<and> [?bar, ?y, ?z, ?x] = ms1 @ ms2"
    by (rule inst [THEN conjunct1, THEN mp, OF c])
  have 2: "[?y, ?z, ?x] =
     map (method_of ''a.Foo'' 2) (declarations method_patterns ex_order) @
     map (method_of ''a.Foo'' 3) (declarations overload_method_patterns ex_order)"
    by (rule inst [THEN conjunct2, THEN conjunct1, THEN mp, THEN mp, OF g p])
  have 3: "sorted_wrt (\<lambda>a b. m_end a \<le> m_start b)
      (finditer (method_patterns ! 0) ex_order)"
    by (rule inst [THEN conjunct2, THEN conjunct2, THEN bspec, OF m])
  from c 1 2 3 show ?thesis by (intro conjI)
qed

end
